theory Spec2Isabelle
  imports Complex_Main "HOL-Library.Sublist"
begin

section \<open>Python strings\<close>

text \<open>
  A Python \<open>str\<close> is a sequence of Unicode code points, so it is modelled as a list of
  code points (natural numbers); \<open>len\<close>, \<open>split\<close> and \<open>strip\<close> then count what
  Python counts. \<open>py\<close> reads an ASCII literal as such a string.
\<close>

type_synonym pystr = "nat list"

definition py :: "string \<Rightarrow> pystr" where
  "py s = map of_char s"

text \<open>
  \<open>str.isspace\<close> on one code point: the 29 code points Python 3 classifies as
  whitespace (U+0009..U+000D, U+001C..U+0020, U+0085, U+00A0, U+1680, U+2000..U+200A,
  U+2028, U+2029, U+202F, U+205F, U+3000). \<open>str.strip()\<close> with no argument removes
  exactly these.
\<close>

definition isspace :: "nat \<Rightarrow> bool" where
  "isspace c \<longleftrightarrow>
     (9 \<le> c \<and> c \<le> 13) \<or> (28 \<le> c \<and> c \<le> 32) \<or> c = 133 \<or> c = 160 \<or> c = 5760 \<or>
     (8192 \<le> c \<and> c \<le> 8202) \<or> c = 8232 \<or> c = 8233 \<or> c = 8239 \<or> c = 8287 \<or>
     c = 12288"

text \<open>\<open>s.strip()\<close>: leading and trailing whitespace removed.\<close>

definition str_strip :: "pystr \<Rightarrow> pystr" where
  "str_strip s = rev (dropWhile isspace (rev (dropWhile isspace s)))"

text \<open>
  The exceptions of the model: Python's own and those of \<open>requests\<close>, the error
  taxonomy of the specification (section 7), and the store's refusal to create a
  collection that exists.
\<close>

datatype error =
    OSError | ValueError | UnicodeDecodeError | AttributeError | TypeError
  | ConnectionError | HTTPError
  | EmptyInputError | DimensionMismatchError | DuplicateIdError | CollectionNotFoundError
  | CollectionExistsError

text \<open>
  \<open>s.split(sep)\<close> with an explicit separator: the text is cut at every occurrence of
  \<open>sep\<close>, found from left to right without overlap; empty pieces are kept and the
  result always has at least one piece. \<open>split_from sep cur rest\<close> scans \<open>rest\<close> with
  \<open>cur\<close> the piece read so far. Python raises \<open>ValueError\<close> on an empty separator.
\<close>

function split_from :: "pystr \<Rightarrow> pystr \<Rightarrow> pystr \<Rightarrow> pystr list" where
  "split_from sep cur [] = [cur]"
| "split_from sep cur (c # cs) =
     (if sep \<noteq> [] \<and> prefix sep (c # cs)
      then cur # split_from sep [] (drop (length sep) (c # cs))
      else split_from sep (cur @ [c]) cs)"
  by pat_completeness auto
termination
  by (relation "measure (\<lambda>(sep, cur, s). length s)") auto

definition str_split :: "pystr \<Rightarrow> pystr \<Rightarrow> error + pystr list" where
  "str_split s sep = (if sep = [] then Inl ValueError else Inr (split_from sep [] s))"

text \<open>\<open>sep.join(pieces)\<close>, the inverse of \<open>split\<close>; used to state what a split is.\<close>

fun str_join :: "pystr \<Rightarrow> pystr list \<Rightarrow> pystr" where
  "str_join sep [] = []"
| "str_join sep [p] = p"
| "str_join sep (p # q # ps) = p @ sep @ str_join sep (q # ps)"

section \<open>The chunkers of \<open>vectordb/chroma_add.py\<close>\<close>

text \<open>
  \<open>load_text(path)\<close> opens the file in text mode and reads it whole; \<open>read_file\<close> is
  what \<open>open(path).read()\<close> gives for a path: the decoded text, or the error raised.
  The text is split at \<open>"\n\n"\<close>; a piece whose \<open>strip()\<close> is the empty string is
  dropped (Python's truth value of a string), and the others are kept stripped, in
  order:
  \<^verbatim>\<open>return [chunk.strip() for chunk in text.split('\n\n') if chunk.strip()]\<close>
\<close>

definition load_text :: "(pystr \<Rightarrow> error + pystr) \<Rightarrow> pystr \<Rightarrow> error + pystr list" where
  "load_text read_file path =
     (case read_file path of
        Inl e \<Rightarrow> Inl e
      | Inr text \<Rightarrow>
          (case str_split text (py ''\<newline>\<newline>'') of
             Inl e \<Rightarrow> Inl e
           | Inr pieces \<Rightarrow>
               Inr (map str_strip (filter (\<lambda>chunk. str_strip chunk \<noteq> []) pieces))))"

section \<open>The vector store\<close>

text \<open>
  Modelled from the spec: the vector-store client. The repository calls the
  \<open>chromadb\<close> package (\<open>PersistentClient\<close>, \<open>client.get_collection\<close>,
  \<open>client.create_collection\<close>, \<open>Collection.add\<close>), whose code is not among the
  sources; the definitions of this section follow the Index Store of the
  specification (sections 3 and 4.3). An entry is a chunk with its id, its embedding
  and its metadata; a collection is a named sequence of entries in insertion order;
  the store is what is persisted under \<open>./chroma_store\<close>: the collections, in the
  order of their creation. A collection handle is the position of its collection in
  the store, so two handles are the same collection exactly when they are equal.
  Floating-point components are kept abstract (the type variable \<open>'f\<close>); the
  dimension of an embedding is its length.
\<close>

datatype meta_value = MStr pystr | MInt int

record 'f entry =
  entry_id :: pystr
  document :: pystr
  embedding :: "'f list"
  metadata :: "(pystr \<times> meta_value) list"

record 'f collection =
  coll_name :: pystr
  coll_entries :: "'f entry list"

type_synonym 'f store = "'f collection list"

fun find_collection :: "pystr \<Rightarrow> 'f store \<Rightarrow> nat option" where
  "find_collection name [] = None"
| "find_collection name (c # cs) =
     (if coll_name c = name then Some 0 else map_option Suc (find_collection name cs))"

text \<open>
  Modelled from the spec: opening a collection that must exist
  (\<open>client.get_collection(name)\<close>) fails with \<open>CollectionNotFoundError\<close> when no
  collection has the name.
\<close>

definition client_get_collection :: "pystr \<Rightarrow> 'f store \<Rightarrow> error + nat" where
  "client_get_collection name st =
     (case find_collection name st of
        None \<Rightarrow> Inl CollectionNotFoundError
      | Some h \<Rightarrow> Inr h)"

text \<open>
  Modelled from the spec: \<open>client.create_collection(name)\<close> adds an empty collection
  under a name that is not in use, and refuses a name that is.
\<close>

definition client_create_collection :: "pystr \<Rightarrow> 'f store \<Rightarrow> error + nat \<times> 'f store" where
  "client_create_collection name st =
     (case find_collection name st of
        Some h \<Rightarrow> Inl CollectionExistsError
      | None \<Rightarrow> Inr (length st, st @ [\<lparr>coll_name = name, coll_entries = []\<rparr>]))"

text \<open>
  Modelled from the spec: the entries a handle shows (\<open>collection.get()\<close>), in
  insertion order.
\<close>

definition collection_get :: "nat \<Rightarrow> 'f store \<Rightarrow> 'f entry list" where
  "collection_get h st = (if h < length st then coll_entries (st ! h) else [])"

text \<open>The entries stored under a collection name; none when there is no such collection.\<close>

definition entries_named :: "pystr \<Rightarrow> 'f store \<Rightarrow> 'f entry list" where
  "entries_named name st =
     (case find_collection name st of None \<Rightarrow> [] | Some h \<Rightarrow> collection_get h st)"

text \<open>
  The collection's established dimension is that of its first entry; vectors agree
  with it when they all have the length of the first.
\<close>

definition same_dimension :: "'f list list \<Rightarrow> bool" where
  "same_dimension vs = (case vs of [] \<Rightarrow> True | v # ws \<Rightarrow> list_all (\<lambda>w. length w = length v) ws)"

definition make_entries ::
  "pystr list \<Rightarrow> 'f list list \<Rightarrow> (pystr \<times> meta_value) list list \<Rightarrow> pystr list \<Rightarrow> 'f entry list" where
  "make_entries documents embeddings metadatas ids =
     map (\<lambda>(i, d, e, m). \<lparr>entry_id = i, document = d, embedding = e, metadata = m\<rparr>)
       (zip ids (zip documents (zip embeddings metadatas)))"

text \<open>
  Modelled from the spec: \<open>insert\<close> (\<open>collection.add(documents, embeddings,
  metadatas, ids)\<close>). The four sequences must have equal length; the insertion fails
  with \<open>DuplicateIdError\<close> when an id is repeated or already in the collection, and
  with \<open>DimensionMismatchError\<close> when an embedding disagrees with the collection's
  dimension; otherwise the entries are appended, in the caller's order. A failed
  insertion changes nothing.
\<close>

definition collection_add ::
  "nat \<Rightarrow> pystr list \<Rightarrow> 'f list list \<Rightarrow> (pystr \<times> meta_value) list list \<Rightarrow> pystr list \<Rightarrow>
   'f store \<Rightarrow> error + 'f store" where
  "collection_add h documents embeddings metadatas ids st =
     (if length st \<le> h then Inl CollectionNotFoundError
      else if length embeddings \<noteq> length documents \<or> length metadatas \<noteq> length documents
              \<or> length ids \<noteq> length documents then Inl ValueError
      else if \<not> distinct ids \<or> list_ex (\<lambda>i. i \<in> set (map entry_id (coll_entries (st ! h)))) ids
        then Inl DuplicateIdError
      else if \<not> same_dimension (map embedding (coll_entries (st ! h)) @ embeddings)
        then Inl DimensionMismatchError
      else Inr (st[h := (st ! h)\<lparr>coll_entries :=
                  coll_entries (st ! h) @ make_entries documents embeddings metadatas ids\<rparr>]))"

section \<open>\<open>vectordb/chroma_setup.py\<close>, \<open>embeddings/embedder.py\<close> and \<open>add_documents\<close>\<close>

text \<open>
  \<open>get_collection(name)\<close> opens the persisted store and tries \<open>client.get_collection\<close>;
  on any exception (a bare \<open>except:\<close>) it calls \<open>client.create_collection\<close>. It
  returns the handle and the store as it then is.
\<close>

definition get_collection :: "pystr \<Rightarrow> 'f store \<Rightarrow> error + nat \<times> 'f store" where
  "get_collection name st =
     (case client_get_collection name st of
        Inr collection \<Rightarrow> Inr (collection, st)
      | Inl e \<Rightarrow> client_create_collection name st)"

text \<open>
  \<open>embed_texts(texts)\<close> is \<open>model.encode(texts).tolist()\<close>. The sentence-transformer
  model is a parameter: \<open>encode t\<close> is the vector it gives the text \<open>t\<close>; a batch gives
  one vector per text, in order.
\<close>

definition embed_texts :: "(pystr \<Rightarrow> 'f list) \<Rightarrow> pystr list \<Rightarrow> 'f list list" where
  "embed_texts encode texts = map encode texts"

text \<open>
  The state \<open>add_documents\<close> works on: the persisted store, and how many UUIDs the
  process has drawn. \<open>uuid4 k\<close> is the string of the \<open>k\<close>-th \<open>uuid.uuid4()\<close> drawn.

  \<open>add_documents(file_path, collection_name)\<close> is the second definition of that name
  in the file, the one Python keeps. It reads the file, splits the content at every
  \<open>"\n"\<close> with no filtering, embeds the chunks, opens the collection, and adds the
  chunks with metadata \<open>{"source": file_path, "chunk_index": i}\<close> and one new
  \<open>str(uuid.uuid4())\<close> id per chunk. An exception of any step ends the call; the
  result is then the error alone.
\<close>

record 'f state =
  store :: "'f store"
  uuid_drawn :: nat

definition add_documents ::
  "(pystr \<Rightarrow> error + pystr) \<Rightarrow> (pystr \<Rightarrow> 'f list) \<Rightarrow> (nat \<Rightarrow> pystr) \<Rightarrow>
   pystr \<Rightarrow> pystr \<Rightarrow> 'f state \<Rightarrow> error + 'f state" where
  "add_documents read_file encode uuid4 file_path collection_name s =
     (case read_file file_path of
        Inl e \<Rightarrow> Inl e
      | Inr content \<Rightarrow>
          (case str_split content (py ''\<newline>'') of
             Inl e \<Rightarrow> Inl e
           | Inr chunks \<Rightarrow>
               (let embeddings = embed_texts encode chunks in
                case get_collection collection_name (store s) of
                  Inl e \<Rightarrow> Inl e
                | Inr (collection, st) \<Rightarrow>
                    (let metadatas =
                           map (\<lambda>i. [(py ''source'', MStr file_path), (py ''chunk_index'', MInt (int i))])
                             [0 ..< length chunks];
                         ids = map (\<lambda>k. uuid4 (uuid_drawn s + k)) [0 ..< length chunks]
                     in case collection_add collection chunks embeddings metadatas ids st of
                          Inl e \<Rightarrow> Inl e
                        | Inr st' \<Rightarrow>
                            Inr \<lparr>store = st', uuid_drawn = uuid_drawn s + length chunks\<rparr>))))"

section \<open>\<open>vectordb/chroma_query.py\<close>\<close>

text \<open>
  \<open>search(query, top_k, collection_name, filters)\<close> has no definition here. The file is
  not valid Python: the call of \<open>collection.query\<close> lacks the comma between the
  arguments \<open>include=[...]\<close> (line 30) and \<open>where=filters\<close> (line 31), and the last
  line lacks the one between \<open>distances\<close> and \<open>metadatas\<close> (line 42). Compiling the
  module raises \<open>SyntaxError\<close>, so \<open>from vectordb.chroma_query import search\<close> fails
  and no call of \<open>search\<close> ever returns; there is no behaviour of the function to
  embed. What the function is written to do is to embed the query, hand the vector,
  \<open>top_k\<close> and the filter to the store's query, and zip the documents, distances and
  metadata the store returns; ranking and filtering are the store's.
\<close>

section \<open>The streamed answer: \<open>query_ollama_stream\<close> of \<open>speech_to_text.py\<close>\<close>

text \<open>
  The values \<open>json.loads\<close> returns: \<open>None\<close>, booleans, integers, floats (\<open>JNonFinite\<close>
  stands for \<open>NaN\<close> and the infinities, which \<open>json.loads\<close> accepts), strings, lists
  and dictionaries (a dictionary as its items, each key once).
\<close>

datatype json =
    JNull | JBool bool | JInt int | JFloat real | JNonFinite | JStr pystr
  | JArr "json list" | JObj "(pystr \<times> json) list"

text \<open>Python's truth value of such a value, as \<open>if chunk.get('done', False):\<close> tests it.\<close>

fun truthy :: "json \<Rightarrow> bool" where
  "truthy JNull = False"
| "truthy (JBool b) = b"
| "truthy (JInt i) = (i \<noteq> 0)"
| "truthy (JFloat r) = (r \<noteq> 0)"
| "truthy JNonFinite = True"
| "truthy (JStr s) = (s \<noteq> [])"
| "truthy (JArr xs) = (xs \<noteq> [])"
| "truthy (JObj kvs) = (kvs \<noteq> [])"

text \<open>
  \<open>chunk.get(key, default)\<close>: only a dictionary has the method; on any other value the
  attribute lookup raises \<open>AttributeError\<close>.
\<close>

definition dict_get :: "json \<Rightarrow> pystr \<Rightarrow> json \<Rightarrow> error + json" where
  "dict_get chunk key fallback =
     (case chunk of
        JObj kvs \<Rightarrow> Inr (case map_of kvs key of None \<Rightarrow> fallback | Some v \<Rightarrow> v)
      | _ \<Rightarrow> Inl AttributeError)"

text \<open>
  One round of the loop over \<open>response.iter_lines()\<close>. A line is a byte string
  (\<open>string\<close>: Isabelle's characters are bytes). \<open>decode\<close> is \<open>line.decode('utf-8')\<close> and
  \<open>loads\<close> is \<open>json.loads\<close>, \<open>None\<close> standing for \<open>UnicodeDecodeError\<close> and
  \<open>JSONDecodeError\<close>; both are parameters. The round
  \<^item> skips an empty line (\<open>if line:\<close>);
  \<^item> decodes outside the \<open>try\<close>, so a decoding error ends the call;
  \<^item> skips a line that is not JSON (\<open>except json.JSONDecodeError: pass\<close>);
  \<^item> appends \<open>chunk.get('response', '')\<close> to the answer, which raises \<open>TypeError\<close>
    unless the value is a string, and before that \<open>AttributeError\<close> unless the chunk is
    a dictionary; neither is caught;
  \<^item> leaves the loop (\<open>break\<close>) when \<open>chunk.get('done', False)\<close> is true.
\<close>

datatype step = Skip | Append pystr | Final pystr | Raise error

definition handle_line ::
  "(string \<Rightarrow> pystr option) \<Rightarrow> (pystr \<Rightarrow> json option) \<Rightarrow> string \<Rightarrow> step" where
  "handle_line decode loads line =
     (if line = [] then Skip
      else case decode line of
        None \<Rightarrow> Raise UnicodeDecodeError
      | Some data \<Rightarrow>
          (case loads data of
             None \<Rightarrow> Skip
           | Some chunk \<Rightarrow>
               (case dict_get chunk (py ''response'') (JStr []) of
                  Inl e \<Rightarrow> Raise e
                | Inr (JStr fragment) \<Rightarrow>
                    (case dict_get chunk (py ''done'') (JBool False) of
                       Inl e \<Rightarrow> Raise e
                     | Inr done \<Rightarrow> if truthy done then Final fragment else Append fragment)
                | Inr _ \<Rightarrow> Raise TypeError)))"

text \<open>
  The loop. Its state is \<open>full_response\<close> and the lines the function has logged or
  printed so far: no statement of the function writes one, so the second component
  is returned as it came. The lines are those of a response received in full.
\<close>

fun stream_loop ::
  "(string \<Rightarrow> pystr option) \<Rightarrow> (pystr \<Rightarrow> json option) \<Rightarrow> pystr \<times> pystr list \<Rightarrow>
   string list \<Rightarrow> error + pystr \<times> pystr list" where
  "stream_loop decode loads (full_response, logged) [] = Inr (full_response, logged)"
| "stream_loop decode loads (full_response, logged) (line # lines) =
     (case handle_line decode loads line of
        Skip \<Rightarrow> stream_loop decode loads (full_response, logged) lines
      | Append fragment \<Rightarrow> stream_loop decode loads (full_response @ fragment, logged) lines
      | Final fragment \<Rightarrow> Inr (full_response @ fragment, logged)
      | Raise e \<Rightarrow> Inl e)"

text \<open>
  \<open>query_ollama_stream(prompt)\<close>: \<open>post\<close> is the server's answer to
  \<open>requests.post(url, json=payload, stream=True)\<close> for a prompt, or the error raised;
  \<open>response.raise_for_status()\<close> raises \<open>HTTPError\<close> on a status from 400 to 599. The
  result is the answer and what was logged.
\<close>

record response =
  status_code :: nat
  iter_lines :: "string list"

definition query_ollama_stream ::
  "(pystr \<Rightarrow> error + response) \<Rightarrow> (string \<Rightarrow> pystr option) \<Rightarrow> (pystr \<Rightarrow> json option) \<Rightarrow>
   pystr \<Rightarrow> error + pystr \<times> pystr list" where
  "query_ollama_stream post decode loads prompt =
     (case post prompt of
        Inl e \<Rightarrow> Inl e
      | Inr response \<Rightarrow>
          if 400 \<le> status_code response \<and> status_code response < 600 then Inl HTTPError
          else stream_loop decode loads ([], []) (iter_lines response))"

fun is_final :: "step \<Rightarrow> bool" where
  "is_final (Final fragment) = True"
| "is_final s = False"

text \<open>
  The answer the specification describes for a stream, read off the lines themselves
  and not off the loop, to state what the loop computes. The record of a line is the
  JSON object it carries (none for an empty line, a line that does not decode, or a
  line that is not a JSON object); its text fragment is its \<open>response\<close> when that is
  a string, and its \<open>done\<close> flag is set when it has a true \<open>done\<close>. The expected
  answer is the concatenation of the text fragments of the records, in order, up to
  and including the first record whose \<open>done\<close> flag is set.
\<close>

definition record_of ::
  "(string \<Rightarrow> pystr option) \<Rightarrow> (pystr \<Rightarrow> json option) \<Rightarrow> string \<Rightarrow> (pystr \<times> json) list option" where
  "record_of decode loads line =
     (if line = [] then None
      else case decode line of
        None \<Rightarrow> None
      | Some data \<Rightarrow> (case loads data of Some (JObj kvs) \<Rightarrow> Some kvs | _ \<Rightarrow> None))"

definition text_fragment :: "(pystr \<times> json) list \<Rightarrow> pystr" where
  "text_fragment kvs = (case map_of kvs (py ''response'') of Some (JStr fragment) \<Rightarrow> fragment | _ \<Rightarrow> [])"

definition done_flag :: "(pystr \<times> json) list \<Rightarrow> bool" where
  "done_flag kvs = (case map_of kvs (py ''done'') of None \<Rightarrow> False | Some flag \<Rightarrow> truthy flag)"

definition records_until_done ::
  "(string \<Rightarrow> pystr option) \<Rightarrow> (pystr \<Rightarrow> json option) \<Rightarrow> string list \<Rightarrow> (pystr \<times> json) list list" where
  "records_until_done decode loads lines =
     (let records = List.map_filter (record_of decode loads) lines
      in takeWhile (\<lambda>r. \<not> done_flag r) records @ take 1 (dropWhile (\<lambda>r. \<not> done_flag r) records))"

definition expected_answer ::
  "(string \<Rightarrow> pystr option) \<Rightarrow> (pystr \<Rightarrow> json option) \<Rightarrow> string list \<Rightarrow> pystr" where
  "expected_answer decode loads lines =
     concat (map text_fragment (records_until_done decode loads lines))"

text \<open>
  The lines the loop can process without raising: an empty line, a line that is not
  JSON, or a record, that is a JSON object whose \<open>response\<close> is absent or a string.
\<close>

definition readable :: "(string \<Rightarrow> pystr option) \<Rightarrow> (pystr \<Rightarrow> json option) \<Rightarrow> string \<Rightarrow> bool" where
  "readable decode loads line =
     (line = [] \<or>
      (case decode line of
         None \<Rightarrow> False
       | Some data \<Rightarrow>
           (case loads data of
              None \<Rightarrow> True
            | Some (JObj kvs) \<Rightarrow>
                (case map_of kvs (py ''response'') of
                   None \<Rightarrow> True
                 | Some (JStr fragment) \<Rightarrow> True
                 | Some _ \<Rightarrow> False)
            | Some _ \<Rightarrow> False)))"

text \<open>
  For the examples: \<open>line.decode('utf-8')\<close> on the lines used there, which are ASCII
  or hold the byte \<open>0xFF\<close> (a byte no UTF-8 text contains, so decoding fails), and
  \<open>json.loads\<close> on the records of a sample answer (every other text counts as not
  JSON).
\<close>

definition ascii_decode :: "string \<Rightarrow> pystr option" where
  "ascii_decode line = (if list_all (\<lambda>c. of_char c < (128 :: nat)) line then Some (py line) else None)"

definition sample_loads :: \<open>pystr \<Rightarrow> json option\<close> where
  \<open>sample_loads data =
     (if data = py ''{"response": "Hel", "done": false}''
        then Some (JObj [(py ''response'', JStr (py ''Hel'')), (py ''done'', JBool False)])
      else if data = py ''{"response": "lo", "done": true}''
        then Some (JObj [(py ''response'', JStr (py ''lo'')), (py ''done'', JBool True)])
      else if data = py ''{"response": "lo", "done": false}''
        then Some (JObj [(py ''response'', JStr (py ''lo'')), (py ''done'', JBool False)])
      else if data = py ''{"response": "!", "done": false}''
        then Some (JObj [(py ''response'', JStr (py ''!'')), (py ''done'', JBool False)])
      else if data = py ''{"done": true}''
        then Some (JObj [(py ''done'', JBool True)])
      else if data = py ''{"response": null, "done": true}''
        then Some (JObj [(py ''response'', JNull), (py ''done'', JBool True)])
      else if data = py ''null''
        then Some JNull
      else None)\<close>

section \<open>Splitting and stripping\<close>

lemma py_nlnl: "py ''\<newline>\<newline>'' = [10, 10]"
  by (simp add: py_def)

lemma split_from_not_Nil: "split_from sep cur s \<noteq> []"
  by (induction sep cur s rule: split_from.induct) auto

lemma str_join_Cons: "ps \<noteq> [] \<Longrightarrow> str_join sep (p # ps) = p @ sep @ str_join sep ps"
  by (cases ps) auto

lemma str_join_split_from:
  "sep \<noteq> [] \<Longrightarrow> str_join sep (split_from sep cur s) = cur @ s"
proof (induction sep cur s rule: split_from.induct)
  case (1 sep cur)
  show ?case by simp
next
  case (2 sep cur c cs)
  show ?case
  proof (cases "prefix sep (c # cs)")
    case True
    then have cut: "sep @ drop (length sep) (c # cs) = c # cs"
      by (metis append_eq_conv_conj prefixE)
    have "str_join sep (split_from sep cur (c # cs)) =
        cur @ sep @ str_join sep (split_from sep [] (drop (length sep) (c # cs)))"
      using True "2.prems" by (simp add: str_join_Cons split_from_not_Nil del: drop_Suc_Cons)
    also have "\<dots> = cur @ sep @ drop (length sep) (c # cs)"
      using "2.IH"(1) True "2.prems" by simp
    finally show ?thesis using cut by simp
  next
    case False
    then show ?thesis using "2.IH"(2) "2.prems" by simp
  qed
qed

lemma split_from_no_sep_aux:
  "sep \<noteq> [] \<Longrightarrow> (\<And>ys zs. cur = ys @ zs \<Longrightarrow> zs \<noteq> [] \<Longrightarrow> \<not> prefix sep (zs @ s)) \<Longrightarrow>
   p \<in> set (split_from sep cur s) \<Longrightarrow> \<not> sublist sep p"
proof (induction sep cur s rule: split_from.induct)
  case (1 sep cur)
  then have p: "p = cur" by simp
  show ?case
  proof
    assume "sublist sep p"
    then obtain as bs where "cur = as @ sep @ bs"
      using p by (auto simp: sublist_def)
    then show False using "1.prems"(1) "1.prems"(2)[of as "sep @ bs"] by simp
  qed
next
  case (2 sep cur c cs)
  show ?case
  proof (cases "prefix sep (c # cs)")
    case True
    with "2.prems" have "p = cur \<or> p \<in> set (split_from sep [] (drop (length sep) (c # cs)))"
      by (simp del: drop_Suc_Cons)
    then show ?thesis
    proof
      assume p: "p = cur"
      show ?thesis
      proof
        assume "sublist sep p"
        then obtain as bs where "cur = as @ sep @ bs"
          using p by (auto simp: sublist_def)
        then show False using "2.prems"(1) "2.prems"(2)[of as "sep @ bs"] by simp
      qed
    next
      assume "p \<in> set (split_from sep [] (drop (length sep) (c # cs)))"
      then show ?thesis using "2.IH"(1) True "2.prems"(1) by simp
    qed
  next
    case False
    with "2.prems" have mem: "p \<in> set (split_from sep (cur @ [c]) cs)" by simp
    have inv: "\<not> prefix sep (zs @ cs)" if "cur @ [c] = ys @ zs" "zs \<noteq> []" for ys zs
    proof (cases "zs = [c]")
      case True
      then show ?thesis using False by simp
    next
      case nc: False
      from that obtain zs' where zs: "zs = zs' @ [c]" "cur = ys @ zs'"
        by (metis append_butlast_last_id butlast_append butlast_snoc last_appendR last_snoc)
      with nc have "zs' \<noteq> []" by auto
      then have "\<not> prefix sep (zs' @ c # cs)" using "2.prems"(2)[OF zs(2)] by simp
      then show ?thesis using zs by simp
    qed
    show ?thesis using "2.IH"(2)[OF _ "2.prems"(1) inv mem] False by simp
  qed
qed

lemma split_from_no_sep:
  "sep \<noteq> [] \<Longrightarrow> p \<in> set (split_from sep [] s) \<Longrightarrow> \<not> sublist sep p"
  by (rule split_from_no_sep_aux[where cur = "[]" and s = s]) auto

lemma str_strip_Nil_iff: "str_strip s = [] \<longleftrightarrow> list_all isspace s"
proof -
  let ?t = "dropWhile isspace s"
  have "str_strip s = [] \<longleftrightarrow> (\<forall>c \<in> set ?t. isspace c)"
    by (simp add: str_strip_def)
  also have "\<dots> \<longleftrightarrow> ?t = []"
  proof
    assume all: "\<forall>c \<in> set ?t. isspace c"
    show "?t = []"
    proof (rule ccontr)
      assume ne: "?t \<noteq> []"
      then have "\<not> isspace (hd ?t)" by (rule hd_dropWhile)
      moreover have "hd ?t \<in> set ?t" using ne by (rule hd_in_set)
      ultimately show False using all by blast
    qed
  next
    assume "?t = []"
    then show "\<forall>c \<in> set ?t. isspace c" by (metis empty_iff empty_set)
  qed
  also have "\<dots> \<longleftrightarrow> list_all isspace s"
    by (simp add: list_all_iff)
  finally show ?thesis .
qed

lemma str_strip_ends:
  assumes "str_strip s \<noteq> []"
  shows "\<not> isspace (hd (str_strip s))" and "\<not> isspace (last (str_strip s))"
proof -
  let ?t = "dropWhile isspace s"
  let ?u = "dropWhile isspace (rev ?t)"
  from assms have u: "?u \<noteq> []" by (simp add: str_strip_def)
  have t: "?t \<noteq> []"
  proof
    assume "?t = []"
    then have "?u = []" by (metis dropWhile.simps(1) rev.simps(1))
    with u show False ..
  qed
  have "last (str_strip s) = hd ?u"
    using u by (simp add: str_strip_def last_rev)
  then show "\<not> isspace (last (str_strip s))"
    using hd_dropWhile[OF u] by simp
  obtain pre where "rev ?t = pre @ ?u"
    by (metis takeWhile_dropWhile_id)
  then have "last ?u = last (rev ?t)" using u by (metis last_appendR)
  then have "hd (str_strip s) = hd ?t"
    using u t by (simp add: str_strip_def hd_rev last_rev)
  then show "\<not> isspace (hd (str_strip s))"
    using hd_dropWhile[OF t] by simp
qed

lemma list_all_str_join:
  "list_all P sep \<Longrightarrow> list_all P (str_join sep ps) \<longleftrightarrow> (\<forall>p \<in> set ps. list_all P p)"
  by (induction sep ps rule: str_join.induct) auto

section \<open>The paragraph chunker\<close>

lemma load_text_Inr:
  "read_file path = Inr text \<Longrightarrow>
   load_text read_file path =
     Inr (map str_strip (filter (\<lambda>p. \<not> list_all isspace p) (split_from (py ''\<newline>\<newline>'') [] text)))"
  by (simp add: load_text_def str_split_def py_nlnl str_strip_Nil_iff)

text \<open>
  Claim C2. For every text read from the file, \<open>load_text\<close> (the \<open>paragraph\<close> strategy)
  cuts the text at the blank-line separator \<open>"\n\n"\<close>: joining the pieces with the
  separator gives the text back, and no piece contains the separator. It drops the
  pieces that are empty or whitespace only and returns the others stripped, in the
  order of the text; so every chunk returned is non-empty and neither starts nor ends
  with whitespace. In particular \<open>"A\n\nB\n\nC"\<close> gives \<open>["A", "B", "C"]\<close>.
\<close>

theorem load_text_paragraphs:
  assumes "read_file path = Inr text"
  shows "load_text read_file path =
           Inr (map str_strip
                  (filter (\<lambda>p. \<not> list_all isspace p) (split_from (py ''\<newline>\<newline>'') [] text)))
       \<and> str_join (py ''\<newline>\<newline>'') (split_from (py ''\<newline>\<newline>'') [] text) = text
       \<and> (\<forall>p \<in> set (split_from (py ''\<newline>\<newline>'') [] text). \<not> sublist (py ''\<newline>\<newline>'') p)
       \<and> (\<forall>chunks. load_text read_file path = Inr chunks \<longrightarrow>
             (\<forall>c \<in> set chunks. c \<noteq> [] \<and> \<not> isspace (hd c) \<and> \<not> isspace (last c)))
       \<and> load_text (\<lambda>p. Inr (py ''A\<newline>\<newline>B\<newline>\<newline>C'')) path = Inr [py ''A'', py ''B'', py ''C'']"
proof (intro conjI allI impI ballI)
  show "load_text read_file path =
      Inr (map str_strip (filter (\<lambda>p. \<not> list_all isspace p) (split_from (py ''\<newline>\<newline>'') [] text)))"
    using assms by (rule load_text_Inr)
  show "str_join (py ''\<newline>\<newline>'') (split_from (py ''\<newline>\<newline>'') [] text) = text"
    by (simp add: str_join_split_from py_nlnl)
  show "\<not> sublist (py ''\<newline>\<newline>'') p" if "p \<in> set (split_from (py ''\<newline>\<newline>'') [] text)" for p
    using that by (intro split_from_no_sep) (simp_all add: py_nlnl)
  show "load_text (\<lambda>p. Inr (py ''A\<newline>\<newline>B\<newline>\<newline>C'')) path = Inr [py ''A'', py ''B'', py ''C'']"
    by (simp add: load_text_def str_split_def py_def str_strip_def isspace_def)
next
  fix chunks c
  assume "load_text read_file path = Inr chunks" and c: "c \<in> set chunks"
  with assms obtain p where "c = str_strip p" "\<not> list_all isspace p"
    by (auto simp: load_text_Inr)
  then have "str_strip p \<noteq> []" by (simp add: str_strip_Nil_iff)
  then show "c \<noteq> []" "\<not> isspace (hd c)" "\<not> isspace (last c)"
    using str_strip_ends[of p] \<open>c = str_strip p\<close> by simp_all
qed

text \<open>
  The theorem at a file whose text has three newlines in a row and a piece of one
  space: the pieces are \<open>"A"\<close>, \<open>" "\<close> and \<open>"\nB \n"\<close>, the chunks \<open>"A"\<close> and \<open>"B"\<close>.
\<close>

theorem load_text_paragraphs_witness:
  "(\<lambda>p. Inr (py ''A\<newline>\<newline> \<newline>\<newline>\<newline>B \<newline>'') :: error + pystr) (py ''sample.txt'')
       = Inr (py ''A\<newline>\<newline> \<newline>\<newline>\<newline>B \<newline>'')
   \<and> load_text (\<lambda>p. Inr (py ''A\<newline>\<newline> \<newline>\<newline>\<newline>B \<newline>'')) (py ''sample.txt'') = Inr [py ''A'', py ''B'']
   \<and> split_from (py ''\<newline>\<newline>'') [] (py ''A\<newline>\<newline> \<newline>\<newline>\<newline>B \<newline>'') = [py ''A'', py '' '', py ''\<newline>B \<newline>'']"
  using load_text_paragraphs[of "\<lambda>p. Inr (py ''A\<newline>\<newline> \<newline>\<newline>\<newline>B \<newline>'')" "py ''sample.txt''"
      "py ''A\<newline>\<newline> \<newline>\<newline>\<newline>B \<newline>''"]
  by (simp add: py_def str_strip_def isspace_def)

text \<open>
  Claim C4 says that the chunker fails with \<open>EmptyInputError\<close> when no chunk is left
  after filtering and does not return an empty sequence. \<open>load_text\<close> has no such
  failure: on a text of spaces and blank lines it returns the empty list.
\<close>

theorem load_text_blank_counterexample:
  "load_text (\<lambda>p. Inr (py '' \<newline>\<newline> \<newline>'')) (py ''blank.txt'') = Inr []
   \<and> load_text (\<lambda>p. Inr (py '' \<newline>\<newline> \<newline>'')) (py ''blank.txt'') \<noteq> Inl EmptyInputError"
  by (simp add: load_text_def str_split_def py_def str_strip_def isspace_def)

text \<open>
  Claim C4, amended. Once the file has been read, \<open>load_text\<close> never fails (so never
  with \<open>EmptyInputError\<close>), and it returns the empty sequence exactly when the text has
  no non-empty chunk, that is when the text consists of whitespace only.
\<close>

theorem load_text_never_fails_on_text:
  assumes "read_file path = Inr text"
  shows "load_text read_file path \<noteq> Inl e
       \<and> (load_text read_file path = Inr [] \<longleftrightarrow> list_all isspace text)"
proof
  show "load_text read_file path \<noteq> Inl e"
    using assms by (simp add: load_text_Inr)
  have sp: "list_all isspace (py ''\<newline>\<newline>'')"
    by (simp add: py_nlnl isspace_def)
  have "load_text read_file path = Inr [] \<longleftrightarrow>
      (\<forall>p \<in> set (split_from (py ''\<newline>\<newline>'') [] text). list_all isspace p)"
    using assms by (simp add: load_text_Inr filter_empty_conv)
  also have "\<dots> \<longleftrightarrow> list_all isspace (str_join (py ''\<newline>\<newline>'') (split_from (py ''\<newline>\<newline>'') [] text))"
    using list_all_str_join[OF sp] by simp
  also have "\<dots> \<longleftrightarrow> list_all isspace text"
    by (simp add: str_join_split_from py_nlnl)
  finally show "load_text read_file path = Inr [] \<longleftrightarrow> list_all isspace text" .
qed

theorem load_text_never_fails_on_text_witness:
  "(\<lambda>p. Inr (py '' \<newline>\<newline> \<newline>'') :: error + pystr) (py ''blank.txt'') = Inr (py '' \<newline>\<newline> \<newline>'')
   \<and> load_text (\<lambda>p. Inr (py '' \<newline>\<newline> \<newline>'')) (py ''blank.txt'') \<noteq> Inl EmptyInputError
   \<and> load_text (\<lambda>p. Inr (py '' \<newline>\<newline> \<newline>'')) (py ''blank.txt'') = Inr []
   \<and> list_all isspace (py '' \<newline>\<newline> \<newline>'')"
  using load_text_never_fails_on_text[of "\<lambda>p. Inr (py '' \<newline>\<newline> \<newline>'')" "py ''blank.txt''"
      "py '' \<newline>\<newline> \<newline>''" EmptyInputError]
  by (simp add: py_def isspace_def)

section \<open>Opening a collection\<close>

lemma find_collection_Some:
  "find_collection name st = Some h \<Longrightarrow> h < length st \<and> coll_name (st ! h) = name"
  by (induction st arbitrary: h) (auto split: if_splits)

lemma find_collection_None:
  "find_collection name st = None \<longleftrightarrow> name \<notin> coll_name ` set st"
  by (induction st) auto

lemma find_collection_append_new:
  "find_collection name st = None \<Longrightarrow>
   find_collection name (st @ [c]) = (if coll_name c = name then Some (length st) else None)"
  by (induction st) (auto split: if_splits)

lemma find_collection_names:
  "map coll_name st = map coll_name st' \<Longrightarrow> find_collection name st = find_collection name st'"
proof (induction st arbitrary: st')
  case Nil
  then show ?case by simp
next
  case (Cons c cs)
  then obtain c' cs' where "st' = c' # cs'" by (cases st') auto
  with Cons show ?case by auto
qed

lemma get_collection_cases:
  obtains h where "find_collection name st = Some h" "get_collection name st = Inr (h, st)"
  | "find_collection name st = None"
    "get_collection name st = Inr (length st, st @ [\<lparr>coll_name = name, coll_entries = []\<rparr>])"
  by (cases "find_collection name st")
    (auto simp: get_collection_def client_get_collection_def client_create_collection_def)

lemma get_collection_opens:
  obtains h st1 where "get_collection name st = Inr (h, st1)"
    "find_collection name st1 = Some h" "collection_get h st1 = entries_named name st"
    "distinct (map coll_name st) \<Longrightarrow> distinct (map coll_name st1)"
proof (cases name st rule: get_collection_cases)
  case (1 h)
  show ?thesis
    by (rule that[of h st]) (use 1 in \<open>simp_all add: entries_named_def\<close>)
next
  case 2
  show ?thesis
  proof (rule that[of "length st" "st @ [\<lparr>coll_name = name, coll_entries = []\<rparr>]"])
    show "distinct (map coll_name (st @ [\<lparr>coll_name = name, coll_entries = []\<rparr>]))"
      if "distinct (map coll_name st)"
      using that 2(1) by (simp add: find_collection_None)
  qed (use 2 in \<open>simp_all add: entries_named_def find_collection_append_new collection_get_def\<close>)
qed

lemma get_collection_again:
  "find_collection name st = Some h \<Longrightarrow> get_collection name st = Inr (h, st)"
  by (simp add: get_collection_def client_get_collection_def)

lemma collection_add_Inr:
  assumes "collection_add h documents embeddings metadatas ids st = Inr st'"
  shows "h < length st"
    and "st' = st[h := (st ! h)\<lparr>coll_entries :=
            coll_entries (st ! h) @ make_entries documents embeddings metadatas ids\<rparr>]"
    and "map coll_name st' = map coll_name st"
    and "collection_get h st' = collection_get h st @ make_entries documents embeddings metadatas ids"
proof -
  from assms show h: "h < length st"
    by (auto simp: collection_add_def split: if_splits)
  from assms show st': "st' = st[h := (st ! h)\<lparr>coll_entries :=
            coll_entries (st ! h) @ make_entries documents embeddings metadatas ids\<rparr>]"
    by (auto simp: collection_add_def split: if_splits)
  show "map coll_name st' = map coll_name st"
    unfolding st' using h by (simp add: map_update list_update_same_conv)
  show "collection_get h st' = collection_get h st @ make_entries documents embeddings metadatas ids"
    unfolding st' using h by (simp add: collection_get_def)
qed

text \<open>
  Claim C7. \<open>get_collection\<close> is an idempotent open-or-create. For every store and
  name it returns a handle, never an error (so never \<open>CollectionNotFoundError\<close>). A
  second call with the same name returns the same handle and leaves the store as it
  is: no second collection is created, and collection names stay unique. The handle
  shows what was stored under the name before. After entries are inserted through the
  handle, a further open gives the same handle again, and through it the old entries
  followed by the inserted ones are visible.
\<close>

theorem get_collection_idempotent:
  "\<exists>h st1. get_collection name st = Inr (h, st1)
     \<and> get_collection name st1 = Inr (h, st1)
     \<and> collection_get h st1 = entries_named name st
     \<and> (distinct (map coll_name st) \<longrightarrow> distinct (map coll_name st1))
     \<and> (\<forall>documents embeddings metadatas ids st2.
           collection_add h documents embeddings metadatas ids st1 = Inr st2 \<longrightarrow>
             get_collection name st2 = Inr (h, st2)
           \<and> collection_get h st2 =
               entries_named name st @ make_entries documents embeddings metadatas ids)"
proof -
  obtain h st1 where o: "get_collection name st = Inr (h, st1)"
    "find_collection name st1 = Some h" "collection_get h st1 = entries_named name st"
    "distinct (map coll_name st) \<Longrightarrow> distinct (map coll_name st1)"
    by (rule get_collection_opens[of name st]) blast
  have "get_collection name st2 = Inr (h, st2)
      \<and> collection_get h st2 = entries_named name st @ make_entries documents embeddings metadatas ids"
    if add: "collection_add h documents embeddings metadatas ids st1 = Inr st2"
    for documents embeddings metadatas ids st2
  proof -
    have "find_collection name st2 = Some h"
      using find_collection_names[OF collection_add_Inr(3)[OF add], of name] o(2) by simp
    then show ?thesis
      using collection_add_Inr(4)[OF add] o(3) by (simp add: get_collection_again)
  qed
  then show ?thesis
    using o get_collection_again[OF o(2)] by blast
qed

text \<open>
  The theorem at the fresh store: the first call creates the collection as handle 0,
  the second returns handle 0 and the same store, and an entry added through the
  handle is what a later open shows.
\<close>

theorem get_collection_idempotent_witness:
  "get_collection (py ''my_collection'') ([] :: real store) =
     Inr (0, [\<lparr>coll_name = py ''my_collection'', coll_entries = []\<rparr>])
   \<and> get_collection (py ''my_collection'')
        [\<lparr>coll_name = py ''my_collection'', coll_entries = [] :: real entry list\<rparr>] =
     Inr (0, [\<lparr>coll_name = py ''my_collection'', coll_entries = []\<rparr>])
   \<and> collection_add 0 [py ''A''] [[1, 0]] [[]] [py ''id-1'']
        [\<lparr>coll_name = py ''my_collection'', coll_entries = [] :: real entry list\<rparr>] =
     Inr [\<lparr>coll_name = py ''my_collection'', coll_entries =
            [\<lparr>entry_id = py ''id-1'', document = py ''A'', embedding = [1, 0], metadata = []\<rparr>]\<rparr>]
   \<and> get_collection (py ''my_collection'')
        [\<lparr>coll_name = py ''my_collection'', coll_entries =
            [\<lparr>entry_id = py ''id-1'', document = py ''A'', embedding = [1, 0 :: real], metadata = []\<rparr>]\<rparr>] =
     Inr (0, [\<lparr>coll_name = py ''my_collection'', coll_entries =
            [\<lparr>entry_id = py ''id-1'', document = py ''A'', embedding = [1, 0], metadata = []\<rparr>]\<rparr>])
   \<and> collection_get 0
        [\<lparr>coll_name = py ''my_collection'', coll_entries =
            [\<lparr>entry_id = py ''id-1'', document = py ''A'', embedding = [1, 0 :: real], metadata = []\<rparr>]\<rparr>] =
     [\<lparr>entry_id = py ''id-1'', document = py ''A'', embedding = [1, 0], metadata = []\<rparr>]"
  using get_collection_idempotent[of "py ''my_collection''" "[] :: real store"]
  by (simp add: get_collection_def client_get_collection_def client_create_collection_def
      collection_add_def collection_get_def make_entries_def same_dimension_def)

section \<open>Adding documents\<close>

lemma py_nl: "py ''\<newline>'' = [10]"
  by (simp add: py_def)

lemma make_entries_fields:
  assumes "length embeddings = length documents" "length metadatas = length documents"
    "length ids = length documents"
  shows "map entry_id (make_entries documents embeddings metadatas ids) = ids"
    and "map document (make_entries documents embeddings metadatas ids) = documents"
    and "map embedding (make_entries documents embeddings metadatas ids) = embeddings"
  using assms by (simp_all add: make_entries_def list_eq_iff_nth_eq)

lemma same_dimensionI: "list_all (\<lambda>v. length v = d) vs \<Longrightarrow> same_dimension vs"
  by (cases vs) (auto simp: same_dimension_def list_all_iff)

lemma drawn_ids: "map (\<lambda>k. uuid4 (a + k)) [0 ..< n] = map uuid4 [a ..< a + n]"
  by (induction n) simp_all

lemma add_documents_once:
  fixes s :: "'f state"
  assumes rd: "read_file file_path = Inr content"
    and ch: "chunks = split_from (py ''\<newline>'') [] content"
    and fresh: "distinct (map entry_id (entries_named name (store s))
                  @ map uuid [uuid_drawn s ..< uuid_drawn s + length chunks])"
    and dim: "\<forall>t. length (encode t) = d"
      "list_all (\<lambda>e. length (embedding e) = d) (entries_named name (store s))"
  obtains s1 where "add_documents read_file encode uuid file_path name s = Inr s1"
    and "uuid_drawn s1 = uuid_drawn s + length chunks"
    and "map document (entries_named name (store s1)) =
           map document (entries_named name (store s)) @ chunks"
    and "map entry_id (entries_named name (store s1)) =
           map entry_id (entries_named name (store s))
             @ map uuid [uuid_drawn s ..< uuid_drawn s + length chunks]"
    and "list_all (\<lambda>e. length (embedding e) = d) (entries_named name (store s1))"
proof -
  let ?old = "entries_named name (store s)"
  let ?ids = "map (\<lambda>k. uuid (uuid_drawn s + k)) [0 ..< length chunks]"
  let ?metas = "map (\<lambda>i. [(py ''source'', MStr file_path), (py ''chunk_index'', MInt (int i))])
      [0 ..< length chunks]"
  let ?new = "make_entries chunks (embed_texts encode chunks) ?metas ?ids"
  obtain h st1 where o: "get_collection name (store s) = Inr (h, st1)"
    "find_collection name st1 = Some h" "collection_get h st1 = ?old"
    by (rule get_collection_opens[of name "store s"]) blast
  have h: "h < length st1" using find_collection_Some[OF o(2)] by simp
  then have old: "coll_entries (st1 ! h) = ?old"
    using o(3) by (simp add: collection_get_def)
  have ids: "?ids = map uuid [uuid_drawn s ..< uuid_drawn s + length chunks]"
    by (rule drawn_ids)
  have d1: "distinct ?ids" and d2: "set ?ids \<inter> set (map entry_id ?old) = {}"
    using fresh unfolding ids by auto
  have d3: "\<not> list_ex (\<lambda>i. i \<in> set (map entry_id ?old)) ?ids"
    using d2 unfolding list_ex_iff by blast
  have sd: "same_dimension (map embedding ?old @ embed_texts encode chunks)"
    using dim by (intro same_dimensionI[of d]) (auto simp: embed_texts_def list_all_iff)
  define st2 where "st2 = st1[h := (st1 ! h)\<lparr>coll_entries := ?old @ ?new\<rparr>]"
  have add: "collection_add h chunks (embed_texts encode chunks) ?metas ?ids st1 = Inr st2"
    unfolding collection_add_def old st2_def using h d1 d3 sd
    by (simp add: embed_texts_def)
  define s1 where "s1 = \<lparr>store = st2, uuid_drawn = uuid_drawn s + length chunks\<rparr>"
  have run: "add_documents read_file encode uuid file_path name s = Inr s1"
    unfolding add_documents_def s1_def
    using rd o(1) add by (simp add: str_split_def py_nl ch Let_def)
  have "find_collection name st2 = Some h"
    using find_collection_names[OF collection_add_Inr(3)[OF add], of name] o(2) by simp
  then have ent: "entries_named name (store s1) = ?old @ ?new"
    using collection_add_Inr(4)[OF add] o(3) by (simp add: entries_named_def s1_def)
  have len: "length (embed_texts encode chunks) = length chunks" "length ?metas = length chunks"
    "length ?ids = length chunks"
    by (simp_all add: embed_texts_def)
  show ?thesis
  proof (rule that[OF run])
    show "uuid_drawn s1 = uuid_drawn s + length chunks" by (simp add: s1_def)
    show "map document (entries_named name (store s1)) = map document ?old @ chunks"
      unfolding ent using make_entries_fields(2)[OF len] by simp
    show "map entry_id (entries_named name (store s1)) =
        map entry_id ?old @ map uuid [uuid_drawn s ..< uuid_drawn s + length chunks]"
      unfolding ent using make_entries_fields(1)[OF len] ids by simp
    have "map embedding ?new = embed_texts encode chunks"
      using make_entries_fields(3)[OF len] .
    then have "list_all (\<lambda>v. length v = d) (map embedding ?new)"
      using dim(1) by (simp add: embed_texts_def list_all_iff)
    then show "list_all (\<lambda>e. length (embedding e) = d) (entries_named name (store s1))"
      unfolding ent using dim(2) by (auto simp: list_all_iff)
  qed
qed

text \<open>
  Claim C10. \<open>add_documents\<close> draws a new UUID for every chunk on every call. When
  the UUIDs drawn are fresh (distinct from one another and from the ids already in
  the collection) and the embedder gives vectors of the collection's dimension, two
  calls on the same file both succeed, so neither raises \<open>DuplicateIdError\<close>; the
  collection then holds every chunk of the file twice, under distinct ids, and the
  second call has changed it: ingestion is not idempotent. A file always has at least
  one chunk.
\<close>

theorem add_documents_twice:
  fixes s :: "'f state"
  assumes rd: "read_file file_path = Inr content"
    and ch: "chunks = split_from (py ''\<newline>'') [] content"
    and fresh: "distinct (map entry_id (entries_named name (store s))
                  @ map uuid4 [uuid_drawn s ..< uuid_drawn s + 2 * length chunks])"
    and dim: "\<forall>t. length (encode t) = d"
      "list_all (\<lambda>e. length (embedding e) = d) (entries_named name (store s))"
  shows "\<exists>s1 s2. add_documents read_file encode uuid4 file_path name s = Inr s1
     \<and> add_documents read_file encode uuid4 file_path name s1 = Inr s2
     \<and> map document (entries_named name (store s2)) =
         map document (entries_named name (store s)) @ chunks @ chunks
     \<and> map entry_id (entries_named name (store s2)) =
         map entry_id (entries_named name (store s))
           @ map uuid4 [uuid_drawn s ..< uuid_drawn s + 2 * length chunks]
     \<and> distinct (map entry_id (entries_named name (store s2)))
     \<and> chunks \<noteq> []
     \<and> entries_named name (store s2) \<noteq> entries_named name (store s1)"
proof -
  let ?a = "uuid_drawn s" and ?n = "length chunks"
  have split: "[?a ..< ?a + 2 * ?n] = [?a ..< ?a + ?n] @ [?a + ?n ..< ?a + ?n + ?n]"
    using upt_add_eq_append[of ?a "?a + ?n" ?n] by (simp add: mult_2 add.assoc)
  have fresh1: "distinct (map entry_id (entries_named name (store s)) @ map uuid4 [?a ..< ?a + ?n])"
    using fresh unfolding split by auto
  obtain s1 where s1: "add_documents read_file encode uuid4 file_path name s = Inr s1"
    "uuid_drawn s1 = ?a + ?n"
    "map document (entries_named name (store s1)) =
       map document (entries_named name (store s)) @ chunks"
    "map entry_id (entries_named name (store s1)) =
       map entry_id (entries_named name (store s)) @ map uuid4 [?a ..< ?a + ?n]"
    "list_all (\<lambda>e. length (embedding e) = d) (entries_named name (store s1))"
    using add_documents_once[where read_file = read_file and file_path = file_path
        and uuid = uuid4 and encode = encode and s = s, OF rd ch fresh1 dim]
    by blast
  have fresh2: "distinct (map entry_id (entries_named name (store s1))
      @ map uuid4 [uuid_drawn s1 ..< uuid_drawn s1 + ?n])"
    using fresh unfolding split s1(2) s1(4) by simp
  obtain s2 where s2: "add_documents read_file encode uuid4 file_path name s1 = Inr s2"
    "map document (entries_named name (store s2)) =
       map document (entries_named name (store s1)) @ chunks"
    "map entry_id (entries_named name (store s2)) =
       map entry_id (entries_named name (store s1)) @ map uuid4 [uuid_drawn s1 ..< uuid_drawn s1 + ?n]"
    using add_documents_once[where read_file = read_file and file_path = file_path
        and uuid = uuid4 and encode = encode and s = s1, OF rd ch fresh2 dim(1) s1(5)]
    by blast
  have ids: "map entry_id (entries_named name (store s2)) =
      map entry_id (entries_named name (store s)) @ map uuid4 [?a ..< ?a + 2 * ?n]"
    unfolding s2(3) s1(4) s1(2) split by simp
  have ne: "chunks \<noteq> []"
    unfolding ch by (rule split_from_not_Nil)
  have "length (map document (entries_named name (store s2))) \<noteq>
      length (map document (entries_named name (store s1)))"
    unfolding s2(2) using ne by simp
  then have diff: "entries_named name (store s2) \<noteq> entries_named name (store s1)"
    by auto
  show ?thesis
    using s1(1) s2(1) s2(2) s1(3) ids fresh ne diff by auto
qed

text \<open>
  The theorem at a file of two lines, a fresh store, and the UUID strings \<open>"u"\<close>,
  \<open>"uu"\<close>, \<open>"uuu"\<close>, \<open>"uuuu"\<close>: after two calls the collection holds four entries.
\<close>

theorem add_documents_twice_witness:
  "(\<lambda>p. Inr (py ''A\<newline>B'') :: error + pystr) (py ''sample.txt'') = Inr (py ''A\<newline>B'')
   \<and> [py ''A'', py ''B''] = split_from (py ''\<newline>'') [] (py ''A\<newline>B'')
   \<and> distinct (map entry_id (entries_named (py ''my_collection'')
                  (store \<lparr>store = [] :: real store, uuid_drawn = 0\<rparr>))
         @ map (\<lambda>k. replicate (Suc k) 117) [0 ..< 0 + 2 * length [py ''A'', py ''B'']])
   \<and> (case add_documents (\<lambda>p. Inr (py ''A\<newline>B'')) (\<lambda>t. [1, 0 :: real])
            (\<lambda>k. replicate (Suc k) 117) (py ''sample.txt'') (py ''my_collection'')
            \<lparr>store = [], uuid_drawn = 0\<rparr> of
         Inl e \<Rightarrow> False
       | Inr s1 \<Rightarrow>
          (case add_documents (\<lambda>p. Inr (py ''A\<newline>B'')) (\<lambda>t. [1, 0 :: real])
             (\<lambda>k. replicate (Suc k) 117) (py ''sample.txt'') (py ''my_collection'') s1 of
            Inl e \<Rightarrow> False
          | Inr s2 \<Rightarrow>
              map document (entries_named (py ''my_collection'') (store s2)) =
                [py ''A'', py ''B'', py ''A'', py ''B'']
            \<and> map entry_id (entries_named (py ''my_collection'') (store s2)) =
                [[117], [117, 117], [117, 117, 117], [117, 117, 117, 117]]))"
  using add_documents_twice[of "\<lambda>p. Inr (py ''A\<newline>B'')" "py ''sample.txt''" "py ''A\<newline>B''"
      "[py ''A'', py ''B'']" "py ''my_collection''" "\<lparr>store = [] :: real store, uuid_drawn = 0\<rparr>"
      "\<lambda>k. replicate (Suc k) 117" "\<lambda>t. [1, 0 :: real]" 2]
  by (simp add: add_documents_def str_split_def py_def get_collection_def
      client_get_collection_def client_create_collection_def collection_add_def
      make_entries_def same_dimension_def embed_texts_def entries_named_def
      collection_get_def Let_def upt_rec)

text \<open>
  Claim C3 says that the \<open>line\<close> strategy filters as the \<open>paragraph\<close> strategy does.
  \<open>add_documents\<close> splits at \<open>"\n"\<close> and filters nothing, where \<open>load_text\<close> beside
  it drops the empty pieces: for a file \<open>"A\n\nB\n"\<close> the blank line and the empty piece
  after the last newline are embedded and stored as documents.
\<close>

theorem add_documents_keeps_blank_lines:
  "(case add_documents (\<lambda>p. Inr (py ''A\<newline>\<newline>B\<newline>'')) (\<lambda>t. [1, 0 :: real])
            (\<lambda>k. replicate (Suc k) 117) (py ''sample.txt'') (py ''my_collection'')
            \<lparr>store = [], uuid_drawn = 0\<rparr> of
      Inl e \<Rightarrow> False
    | Inr s1 \<Rightarrow>
        map document (entries_named (py ''my_collection'') (store s1)) =
          [py ''A'', [], py ''B'', []])"
  by (simp add: add_documents_def str_split_def py_def get_collection_def
      client_get_collection_def client_create_collection_def collection_add_def
      make_entries_def same_dimension_def embed_texts_def entries_named_def
      collection_get_def Let_def upt_rec)

section \<open>The streamed answer\<close>

lemma stream_loop_before_final:
  "\<forall>l \<in> set pre. \<not> is_final (handle_line decode loads l) \<Longrightarrow>
   stream_loop decode loads st pre = Inr st' \<Longrightarrow>
   stream_loop decode loads st (pre @ rest) = stream_loop decode loads st' rest"
proof (induction pre arbitrary: st)
  case Nil
  then show ?case by (cases st) simp
next
  case (Cons l ls)
  obtain acc logged where st: "st = (acc, logged)" by (cases st)
  from Cons.prems show ?case unfolding st
    by (cases "handle_line decode loads l") (simp_all add: Cons.IH)
qed

lemma handle_line_done:
  assumes "line \<noteq> []" "decode line = Some data" "loads data = Some (JObj kvs)"
    and "map_of kvs (py ''done'') = Some flag" "truthy flag"
    and "map_of kvs (py ''response'') = Some (JStr fragment)
         \<or> map_of kvs (py ''response'') = None \<and> fragment = []"
  shows "handle_line decode loads line = Final fragment"
  using assms by (auto simp: handle_line_def dict_get_def)

lemma handle_line_malformed:
  "line \<noteq> [] \<Longrightarrow> decode line = Some data \<Longrightarrow> loads data = None \<Longrightarrow>
   handle_line decode loads line = Skip"
  by (simp add: handle_line_def)

text \<open>
  Claim C8. In every streamed response, the first record whose \<open>done\<close> flag is true
  ends the stream: the answer is what the lines before it had accumulated followed
  by the text that record carries (nothing when it has no \<open>response\<close>), whatever
  lines come after it.
\<close>

theorem done_record_ends_stream:
  assumes "post prompt = Inr resp"
    and "\<not> (400 \<le> status_code resp \<and> status_code resp < 600)"
    and "iter_lines resp = before @ line # after"
    and "stream_loop decode loads ([], []) before = Inr (answer, logged)"
    and "\<forall>l \<in> set before. \<not> is_final (handle_line decode loads l)"
    and "line \<noteq> []" "decode line = Some data" "loads data = Some (JObj kvs)"
    and "map_of kvs (py ''done'') = Some flag" "truthy flag"
    and "map_of kvs (py ''response'') = Some (JStr fragment)
         \<or> map_of kvs (py ''response'') = None \<and> fragment = []"
  shows "query_ollama_stream post decode loads prompt = Inr (answer @ fragment, logged)"
proof -
  have "handle_line decode loads line = Final fragment"
    using assms(6-11) by (rule handle_line_done)
  then have "stream_loop decode loads (answer, logged) (line # after) = Inr (answer @ fragment, logged)"
    by simp
  then have "stream_loop decode loads ([], []) (before @ line # after) = Inr (answer @ fragment, logged)"
    using stream_loop_before_final[OF assms(5) assms(4), of "line # after"] by simp
  then show ?thesis
    using assms(1-3) by (simp add: query_ollama_stream_def)
qed

text \<open>
  The theorem of claim C8 at a sample answer of three records, the second with
  \<open>"done": true\<close>: the answer is \<open>"Hello"\<close>, and the third record adds nothing.
\<close>

theorem done_record_ends_stream_witness:
  \<open>query_ollama_stream
     (\<lambda>prompt. Inr \<lparr>status_code = 200, iter_lines =
        [''{"response": "Hel", "done": false}'', ''{"response": "lo", "done": true}'',
         ''{"response": "!", "done": false}'']\<rparr>)
     ascii_decode sample_loads (py ''Hi'') = Inr (py ''Hello'', [])
   \<and> stream_loop ascii_decode sample_loads ([], []) [''{"response": "Hel", "done": false}'']
       = Inr (py ''Hel'', [])
   \<and> sample_loads (py ''{"response": "lo", "done": true}'')
       = Some (JObj [(py ''response'', JStr (py ''lo'')), (py ''done'', JBool True)])\<close>
  using done_record_ends_stream[of
      \<open>\<lambda>prompt. Inr \<lparr>status_code = 200, iter_lines =
        [''{"response": "Hel", "done": false}'', ''{"response": "lo", "done": true}'',
         ''{"response": "!", "done": false}'']\<rparr>\<close>
      \<open>py ''Hi''\<close> _
      \<open>[''{"response": "Hel", "done": false}'']\<close> \<open>''{"response": "lo", "done": true}''\<close>
      \<open>[''{"response": "!", "done": false}'']\<close>
      ascii_decode sample_loads \<open>py ''Hel''\<close> \<open>[]\<close> _
      \<open>[(py ''response'', JStr (py ''lo'')), (py ''done'', JBool True)]\<close> \<open>JBool True\<close> \<open>py ''lo''\<close>]
  by (simp add: handle_line_def ascii_decode_def sample_loads_def py_def dict_get_def)

lemma readable_handle_line:
  assumes "readable decode loads line"
  shows "handle_line decode loads line =
    (case record_of decode loads line of
       None \<Rightarrow> Skip
     | Some kvs \<Rightarrow> if done_flag kvs then Final (text_fragment kvs) else Append (text_fragment kvs))"
proof (cases "line = []")
  case True
  then show ?thesis by (simp add: handle_line_def record_of_def)
next
  case ne: False
  with assms obtain data where d: "decode line = Some data"
    by (cases "decode line") (simp_all add: readable_def)
  show ?thesis
  proof (cases "loads data")
    case None
    with ne d show ?thesis by (simp add: handle_line_def record_of_def)
  next
    case parsed: (Some chunk)
    with assms ne d obtain kvs where k: "chunk = JObj kvs"
      by (cases chunk) (simp_all add: readable_def)
    have r: "record_of decode loads line = Some kvs"
      using ne d parsed k by (simp add: record_of_def)
    show ?thesis
    proof (cases "map_of kvs (py ''response'')")
      case None
      with ne d parsed k r show ?thesis
        by (cases "map_of kvs (py ''done'')")
          (simp_all add: handle_line_def dict_get_def text_fragment_def done_flag_def)
    next
      case field: (Some v)
      with assms ne d parsed k obtain fragment where v: "v = JStr fragment"
        by (cases v) (simp_all add: readable_def)
      with ne d parsed k r field show ?thesis
        by (cases "map_of kvs (py ''done'')")
          (simp_all add: handle_line_def dict_get_def text_fragment_def done_flag_def)
    qed
  qed
qed

lemma expected_answer_simps:
  "expected_answer decode loads [] = []"
  "expected_answer decode loads (line # lines) =
     (case record_of decode loads line of
        None \<Rightarrow> expected_answer decode loads lines
      | Some kvs \<Rightarrow>
          if done_flag kvs then text_fragment kvs
          else text_fragment kvs @ expected_answer decode loads lines)"
  by (simp_all add: expected_answer_def records_until_done_def map_filter_simps Let_def
      split: option.split)

lemma stream_loop_expected:
  "\<forall>l \<in> set lines. readable decode loads l \<Longrightarrow>
   stream_loop decode loads (acc, logged) lines =
     Inr (acc @ expected_answer decode loads lines, logged)"
proof (induction lines arbitrary: acc)
  case Nil
  then show ?case by (simp add: expected_answer_simps)
next
  case (Cons l ls)
  then have r: "readable decode loads l" and rest: "\<forall>l \<in> set ls. readable decode loads l"
    by simp_all
  show ?case
  proof (cases "record_of decode loads l")
    case None
    then show ?thesis
      using readable_handle_line[OF r] Cons.IH[OF rest] by (simp add: expected_answer_simps)
  next
    case (Some kvs)
    then show ?thesis
      using readable_handle_line[OF r] Cons.IH[OF rest] by (simp add: expected_answer_simps)
  qed
qed

lemma stream_loop_undecodable:
  "line \<noteq> [] \<Longrightarrow> decode line = None \<Longrightarrow>
   stream_loop decode loads st (line # rest) = Inl UnicodeDecodeError"
  by (cases st) (simp add: handle_line_def)

lemma stream_loop_not_object:
  "line \<noteq> [] \<Longrightarrow> decode line = Some data \<Longrightarrow> loads data = Some chunk \<Longrightarrow>
   \<forall>kvs. chunk \<noteq> JObj kvs \<Longrightarrow>
   stream_loop decode loads st (line # rest) = Inl AttributeError"
  by (cases st; cases chunk) (simp_all add: handle_line_def dict_get_def)

lemma stream_loop_not_text:
  "line \<noteq> [] \<Longrightarrow> decode line = Some data \<Longrightarrow> loads data = Some (JObj kvs) \<Longrightarrow>
   map_of kvs (py ''response'') = Some v \<Longrightarrow> \<forall>fragment. v \<noteq> JStr fragment \<Longrightarrow>
   stream_loop decode loads st (line # rest) = Inl TypeError"
  by (cases st; cases v) (simp_all add: handle_line_def dict_get_def)

lemma stream_loop_malformed:
  "line \<noteq> [] \<Longrightarrow> decode line = Some data \<Longrightarrow> loads data = None \<Longrightarrow>
   stream_loop decode loads st (line # rest) = stream_loop decode loads st rest"
  by (cases st) (simp add: handle_line_malformed)

text \<open>
  Claim C9 says that a line that is not valid JSON is skipped and logged and never
  fatal, and that the result is the concatenation of the fragments of the
  well-formed records. On the sample answer:
  \<^item> a truncated line is skipped, but nothing is logged (the \<open>except\<close> branch is
    \<open>pass\<close>), and the record after the \<open>done\<close> record does not reach the answer;
  \<^item> a line that is not UTF-8, hence not JSON, is fatal: \<open>line.decode('utf-8')\<close>
    stands before the \<open>try\<close> and raises \<open>UnicodeDecodeError\<close>;
  \<^item> a line of valid JSON that is not an object (\<open>null\<close>), or whose \<open>response\<close> is
    not a string, is fatal too (\<open>AttributeError\<close>, \<open>TypeError\<close>), so there is no
    accumulated result.
\<close>

theorem malformed_record_counterexample:
  \<open>query_ollama_stream
     (\<lambda>prompt. Inr \<lparr>status_code = 200, iter_lines =
        [''{"response": "Hel", "done": false}'', ''{"response": "lo", "don'',
         ''{"response": "lo", "done": true}'', ''{"response": "!", "done": false}'']\<rparr>)
     ascii_decode sample_loads (py ''Hi'') = Inr (py ''Hello'', [])
   \<and> query_ollama_stream
     (\<lambda>prompt. Inr \<lparr>status_code = 200, iter_lines =
        [''{"response": "Hel", "done": false}'', [CHR 0xFF],
         ''{"response": "lo", "done": true}'']\<rparr>)
     ascii_decode sample_loads (py ''Hi'') = Inl UnicodeDecodeError
   \<and> query_ollama_stream
     (\<lambda>prompt. Inr \<lparr>status_code = 200, iter_lines =
        [''{"response": "Hel", "done": false}'', ''null'',
         ''{"response": "lo", "done": true}'']\<rparr>)
     ascii_decode sample_loads (py ''Hi'') = Inl AttributeError
   \<and> query_ollama_stream
     (\<lambda>prompt. Inr \<lparr>status_code = 200, iter_lines =
        [''{"response": "Hel", "done": false}'', ''{"response": null, "done": true}'']\<rparr>)
     ascii_decode sample_loads (py ''Hi'') = Inl TypeError\<close>
  by (simp add: query_ollama_stream_def handle_line_def ascii_decode_def sample_loads_def
      py_def dict_get_def)

text \<open>
  Claim C9, amended. A line that decodes as UTF-8 but is not valid JSON is skipped
  without a trace and is never fatal: the loop goes on with the lines after it, with
  the answer and the log as they were. A line that is not UTF-8 is fatal
  (\<open>UnicodeDecodeError\<close>), and so is a line of valid JSON that is not an object
  (\<open>AttributeError\<close>) or whose \<open>response\<close> is not a string (\<open>TypeError\<close>). When no
  line is of these fatal kinds, the call succeeds, nothing is logged, and the answer
  is the concatenation of the \<open>response\<close> texts of the records (the lines that are
  JSON objects), in order, up to and including the first record whose \<open>done\<close> flag
  is set.
\<close>

theorem malformed_records_are_skipped:
  "(\<forall>line data st rest.
      line \<noteq> [] \<and> decode line = Some data \<and> loads data = None \<longrightarrow>
        stream_loop decode loads st (line # rest) = stream_loop decode loads st rest)
   \<and> (\<forall>line st rest.
      line \<noteq> [] \<and> decode line = None \<longrightarrow>
        stream_loop decode loads st (line # rest) = Inl UnicodeDecodeError)
   \<and> (\<forall>line data chunk st rest.
      line \<noteq> [] \<and> decode line = Some data \<and> loads data = Some chunk \<and> (\<forall>kvs. chunk \<noteq> JObj kvs) \<longrightarrow>
        stream_loop decode loads st (line # rest) = Inl AttributeError)
   \<and> (\<forall>line data kvs v st rest.
      line \<noteq> [] \<and> decode line = Some data \<and> loads data = Some (JObj kvs)
        \<and> map_of kvs (py ''response'') = Some v \<and> (\<forall>fragment. v \<noteq> JStr fragment) \<longrightarrow>
        stream_loop decode loads st (line # rest) = Inl TypeError)
   \<and> (post prompt = Inr resp \<and> \<not> (400 \<le> status_code resp \<and> status_code resp < 600)
        \<and> (\<forall>l \<in> set (iter_lines resp). readable decode loads l) \<longrightarrow>
        query_ollama_stream post decode loads prompt =
          Inr (concat (map text_fragment (records_until_done decode loads (iter_lines resp))), []))"
proof (intro conjI allI impI)
  fix line data and st :: "pystr \<times> pystr list" and rest
  assume "line \<noteq> [] \<and> decode line = Some data \<and> loads data = None"
  then show "stream_loop decode loads st (line # rest) = stream_loop decode loads st rest"
    by (simp add: stream_loop_malformed)
next
  fix line and st :: "pystr \<times> pystr list" and rest
  assume "line \<noteq> [] \<and> decode line = None"
  then show "stream_loop decode loads st (line # rest) = Inl UnicodeDecodeError"
    by (simp add: stream_loop_undecodable)
next
  fix line data chunk and st :: "pystr \<times> pystr list" and rest
  assume "line \<noteq> [] \<and> decode line = Some data \<and> loads data = Some chunk \<and> (\<forall>kvs. chunk \<noteq> JObj kvs)"
  then show "stream_loop decode loads st (line # rest) = Inl AttributeError"
    using stream_loop_not_object[of line decode data loads chunk st rest] by blast
next
  fix line data kvs v and st :: "pystr \<times> pystr list" and rest
  assume "line \<noteq> [] \<and> decode line = Some data \<and> loads data = Some (JObj kvs)
        \<and> map_of kvs (py ''response'') = Some v \<and> (\<forall>fragment. v \<noteq> JStr fragment)"
  then show "stream_loop decode loads st (line # rest) = Inl TypeError"
    using stream_loop_not_text[of line decode data loads kvs v st rest] by blast
next
  assume a: "post prompt = Inr resp \<and> \<not> (400 \<le> status_code resp \<and> status_code resp < 600)
        \<and> (\<forall>l \<in> set (iter_lines resp). readable decode loads l)"
  then have "stream_loop decode loads ([], []) (iter_lines resp) =
      Inr ([] @ expected_answer decode loads (iter_lines resp), [])"
    by (intro stream_loop_expected) simp
  then show "query_ollama_stream post decode loads prompt =
      Inr (concat (map text_fragment (records_until_done decode loads (iter_lines resp))), [])"
    using a by (simp add: query_ollama_stream_def expected_answer_def)
qed

text \<open>
  The amended claim at a sample answer with a truncated line and an empty line: both
  are skipped, every line is readable, and the answer is \<open>"Hello"\<close>, the texts of the
  two records before the \<open>done\<close> record, with an empty log. The same lines after a
  line that is not UTF-8 give \<open>UnicodeDecodeError\<close>.
\<close>

theorem malformed_records_are_skipped_witness:
  \<open>query_ollama_stream
     (\<lambda>prompt. Inr \<lparr>status_code = 200, iter_lines =
        [''{"response": "Hel", "done": false}'', ''{"respon'', [],
         ''{"response": "lo", "done": false}'', ''{"done": true}'']\<rparr>)
     ascii_decode sample_loads (py ''Hi'') = Inr (py ''Hello'', [])
   \<and> list_all (readable ascii_decode sample_loads)
        [''{"response": "Hel", "done": false}'', ''{"respon'', [],
         ''{"response": "lo", "done": false}'', ''{"done": true}'']
   \<and> map text_fragment (records_until_done ascii_decode sample_loads
        [''{"response": "Hel", "done": false}'', ''{"respon'', [],
         ''{"response": "lo", "done": false}'', ''{"done": true}''])
       = [py ''Hel'', py ''lo'', []]
   \<and> ascii_decode ''{"respon'' = Some (py ''{"respon'') \<and> sample_loads (py ''{"respon'') = None
   \<and> stream_loop ascii_decode sample_loads (py ''Hel'', [])
        [''{"respon'', ''{"response": "lo", "done": true}'']
       = stream_loop ascii_decode sample_loads (py ''Hel'', []) [''{"response": "lo", "done": true}'']
   \<and> ascii_decode [CHR 0xFF] = None
   \<and> stream_loop ascii_decode sample_loads (py ''Hel'', [])
        [[CHR 0xFF], ''{"response": "lo", "done": true}''] = Inl UnicodeDecodeError\<close>
  using malformed_records_are_skipped[of ascii_decode sample_loads
      \<open>\<lambda>prompt. Inr \<lparr>status_code = 200, iter_lines =
        [''{"response": "Hel", "done": false}'', ''{"respon'', [],
         ''{"response": "lo", "done": false}'', ''{"done": true}'']\<rparr>\<close>
      \<open>py ''Hi''\<close>]
  by (simp add: handle_line_def ascii_decode_def sample_loads_def py_def dict_get_def
      readable_def records_until_done_def record_of_def text_fragment_def done_flag_def
      map_filter_simps Let_def)

end
